theory Spec2Isabelle
  imports Complex_Main "HOL-Library.Monad_Syntax"
begin

section \<open>Common ground: memory, loops, schedules\<close>

text \<open>
  The four programs (\<^verbatim>\<open>max.c\<close>, \<^verbatim>\<open>frobenius.c\<close>, the per-element dot product and
  the block dot product) work on arrays of \<^verbatim>\<open>double\<close>. A \<^verbatim>\<open>double\<close> is modelled as a
  \<^typ>\<open>real\<close> (exact arithmetic), an array as the list of its cells, and a matrix
  \<^verbatim>\<open>double A[m][n]\<close> as the row-major buffer of its \<open>m * n\<close> cells, which is how C
  lays it out. \<^verbatim>\<open>size_t\<close> indices are natural numbers.

  Reading or writing a cell outside the buffer is undefined behaviour in C; here it is
  the value \<open>None\<close>, and every function that touches memory returns an option.
\<close>

definition load :: "real list \<Rightarrow> nat \<Rightarrow> real option" where
  "load buf i = (if i < length buf then Some (buf ! i) else None)"

definition store :: "real list \<Rightarrow> nat \<Rightarrow> real \<Rightarrow> real list option" where
  "store buf i v = (if i < length buf then Some (buf[i := v]) else None)"

text \<open>
  \<^verbatim>\<open>for (size_t i = lo; i < hi; ++i) body\<close> runs \<open>body\<close> at the indices
  \<open>[lo..<hi]\<close> in turn, threading the variables the body updates; it stops at the
  first undefined step.
\<close>

fun for_loop :: "nat list \<Rightarrow> (nat \<Rightarrow> 's \<Rightarrow> 's option) \<Rightarrow> 's \<Rightarrow> 's option" where
  "for_loop [] body s = Some s"
| "for_loop (i # is) body s =
     (case body i s of None \<Rightarrow> None | Some s' \<Rightarrow> for_loop is body s')"

text \<open>
  Threads. Every worker first computes a local value from data that no thread writes,
  then takes the mutex and updates the one shared accumulator. The input being
  read-only, a worker is a function from the accumulator to the accumulator, and a run of
  the program is fixed by the order in which the workers pass through their critical
  sections: the schedule, a list that names each of the \<open>k\<close> created threads once.
  \<open>run_threads\<close> applies the workers to the accumulator in that order; the caller reads
  the accumulator after all joins. The pointers \<^verbatim>\<open>shared_max\<close>/\<^verbatim>\<open>shared_sum\<close>
  and \<^verbatim>\<open>mutex\<close> of the \<^verbatim>\<open>ThreadData\<close> structs all point to that one accumulator
  and its lock, so the records below keep the other fields only.
\<close>

definition is_schedule :: "nat \<Rightarrow> nat list \<Rightarrow> bool" where
  "is_schedule k sched = (distinct sched \<and> set sched = {0..<k})"

definition run_threads ::
  "('d \<Rightarrow> real \<Rightarrow> real option) \<Rightarrow> 'd list \<Rightarrow> nat list \<Rightarrow> real \<Rightarrow> real option" where
  "run_threads worker thread_data sched shared =
     for_loop sched
       (\<lambda>t acc. if t < length thread_data then worker (thread_data ! t) acc else None)
       shared"

section \<open>The max norm (\<^verbatim>\<open>max.c\<close>)\<close>

text \<open>\<^verbatim>\<open>#define M 5\<close> and \<^verbatim>\<open>#define N 8\<close>, in \<^verbatim>\<open>max.c\<close> and in \<^verbatim>\<open>frobenius.c\<close>.\<close>

definition MAT_M :: nat where "MAT_M = 5"
definition MAT_N :: nat where "MAT_N = 8"

text \<open>
  \<^verbatim>\<open>typedef struct { size_t row; size_t n; double (*A)[N]; ... } ThreadData;\<close>
  The field \<^verbatim>\<open>A\<close> points to rows of \<^verbatim>\<open>N\<close> doubles, \<^verbatim>\<open>N\<close> the compile-time
  constant: a worker's \<^verbatim>\<open>data->A[row][j]\<close> is the cell \<open>row * N + j\<close> of the buffer,
  whatever the caller's \<open>n\<close>, while \<^verbatim>\<open>A[i][j]\<close> in a function with the parameter
  \<^verbatim>\<open>double A[m][n]\<close> is the cell \<open>i * n + j\<close>.
\<close>

record ThreadData_row =
  td_row :: nat
  td_n :: nat
  td_A :: "real list"

definition compute_row_max :: "ThreadData_row \<Rightarrow> real \<Rightarrow> real option" where
  "compute_row_max data shared_max = do {
     x0 \<leftarrow> load (td_A data) (td_row data * MAT_N + 0);
     local_max \<leftarrow> for_loop [1..<td_n data]
       (\<lambda>j local_max. do {
          x \<leftarrow> load (td_A data) (td_row data * MAT_N + j);
          Some (if \<bar>x\<bar> > local_max then \<bar>x\<bar> else local_max)
        }) \<bar>x0\<bar>;
     Some (if local_max > shared_max then local_max else shared_max)
   }"

definition max_ref :: "nat \<Rightarrow> nat \<Rightarrow> real list \<Rightarrow> real option" where
  "max_ref m n A = do {
     maxElem \<leftarrow> load A (0 * n + 0);
     for_loop [0..<m]
       (\<lambda>i. for_loop [0..<n]
          (\<lambda>j maxElem. do {
             x \<leftarrow> load A (i * n + j);
             Some (if \<bar>x\<bar> > maxElem then x else maxElem)
           }))
       maxElem
   }"

definition max_thread_data :: "nat \<Rightarrow> nat \<Rightarrow> real list \<Rightarrow> ThreadData_row list" where
  "max_thread_data m n A = map (\<lambda>i. \<lparr>td_row = i, td_n = n, td_A = A\<rparr>) [0..<m]"

text \<open>The parallel \<^verbatim>\<open>max\<close> of \<^verbatim>\<open>max.c\<close> (the name \<open>max\<close> is HOL's binary maximum).\<close>

definition max_par :: "nat \<Rightarrow> nat \<Rightarrow> real list \<Rightarrow> nat list \<Rightarrow> real option" where
  "max_par m n A sched = do {
     maxElem \<leftarrow> load A (0 * n + 0);
     run_threads compute_row_max (max_thread_data m n A) sched maxElem
   }"

text \<open>The entries \<open>A[i][j]\<close>, \<open>i < m\<close>, \<open>j < n\<close>, of a matrix and the largest absolute value.\<close>

definition entries :: "nat \<Rightarrow> nat \<Rightarrow> real list \<Rightarrow> real list" where
  "entries m n A = concat (map (\<lambda>i. map (\<lambda>j. A ! (i * n + j)) [0..<n]) [0..<m])"

definition max_abs :: "nat \<Rightarrow> nat \<Rightarrow> real list \<Rightarrow> real" where
  "max_abs m n A = Max (set (map abs (entries m n A)))"

text \<open>
  \<^verbatim>\<open>initMatrix\<close> writes the running counter \<^verbatim>\<open>static double elem\<close> into every cell
  and increments it. The counter is program state that survives the call, so the function
  takes it and returns it with the matrix.
\<close>

definition initMatrix :: "nat \<Rightarrow> nat \<Rightarrow> real list \<times> real \<Rightarrow> (real list \<times> real) option" where
  "initMatrix m n =
     for_loop [0..<m]
       (\<lambda>i. for_loop [0..<n]
          (\<lambda>j (A, elem). do {
             A' \<leftarrow> store A (i * n + j) elem;
             Some (A', elem + 1)
           }))"

text \<open>
  What a program writes to standard output: the arrays it prints, the reference and the
  parallel result, and the line of the verdict. \<open>OK\<close> stands for \<^verbatim>\<open>OK\<close> in
  \<^verbatim>\<open>max.c\<close> and for the \<^verbatim>\<open>... : OK\<close> line of the three other programs, \<open>ERROR\<close>
  for the line of the \<^verbatim>\<open>else\<close> branch. A \<^verbatim>\<open>main\<close> returns its output and its exit
  code.
\<close>

datatype message = OK | ERROR

record stdout =
  printed_arrays :: "real list list"
  printed_ref :: real
  printed_res :: real
  printed_msg :: message

text \<open>
  The local array \<^verbatim>\<open>double A[m][n]\<close> of a \<^verbatim>\<open>main\<close> starts with indeterminate
  contents; zeros stand for them, every cell being overwritten by the initialiser
  (lemmas \<open>initMatrix_fills\<close> and \<open>initArray_fills\<close>).
\<close>

definition main_max :: "nat list \<Rightarrow> (stdout \<times> int) option" where
  "main_max sched = do {
     (A, elem) \<leftarrow> initMatrix MAT_M MAT_N (replicate (MAT_M * MAT_N) 0, 0);
     ref \<leftarrow> max_ref MAT_M MAT_N A;
     res \<leftarrow> max_par MAT_M MAT_N A sched;
     Some (\<lparr>printed_arrays = [A], printed_ref = ref, printed_res = res,
            printed_msg = (if ref = res then OK else ERROR)\<rparr>, 0)
   }"

section \<open>The Frobenius norm (\<^verbatim>\<open>frobenius.c\<close>)\<close>

text \<open>The \<^verbatim>\<open>ThreadData\<close> of this program has the fields of the one of \<^verbatim>\<open>max.c\<close>.\<close>

definition compute_row_sum :: "ThreadData_row \<Rightarrow> real \<Rightarrow> real option" where
  "compute_row_sum data shared_sum = do {
     row_sum \<leftarrow> for_loop [0..<td_n data]
       (\<lambda>j row_sum. do {
          x \<leftarrow> load (td_A data) (td_row data * MAT_N + j);
          y \<leftarrow> load (td_A data) (td_row data * MAT_N + j);
          Some (row_sum + x * y)
        }) 0;
     Some (shared_sum + row_sum)
   }"

definition frobenius_ref :: "nat \<Rightarrow> nat \<Rightarrow> real list \<Rightarrow> real option" where
  "frobenius_ref m n A = do {
     frob \<leftarrow> for_loop [0..<m]
       (\<lambda>i. for_loop [0..<n]
          (\<lambda>j frob. do {
             x \<leftarrow> load A (i * n + j);
             y \<leftarrow> load A (i * n + j);
             Some (frob + x * y)
           }))
       0;
     Some (sqrt frob)
   }"

definition frobenius_thread_data :: "nat \<Rightarrow> nat \<Rightarrow> real list \<Rightarrow> ThreadData_row list" where
  "frobenius_thread_data m n A = map (\<lambda>i. \<lparr>td_row = i, td_n = n, td_A = A\<rparr>) [0..<m]"

definition frobenius :: "nat \<Rightarrow> nat \<Rightarrow> real list \<Rightarrow> nat list \<Rightarrow> real option" where
  "frobenius m n A sched = do {
     frob \<leftarrow> run_threads compute_row_sum (frobenius_thread_data m n A) sched 0;
     Some (sqrt frob)
   }"

definition isClose :: "real \<Rightarrow> real \<Rightarrow> real \<Rightarrow> bool" where
  "isClose a b threshold = (\<bar>a - b\<bar> < threshold)"

definition main_frobenius :: "nat list \<Rightarrow> (stdout \<times> int) option" where
  "main_frobenius sched = do {
     (A, elem) \<leftarrow> initMatrix MAT_M MAT_N (replicate (MAT_M * MAT_N) 0, 0);
     ref \<leftarrow> frobenius_ref MAT_M MAT_N A;
     res \<leftarrow> frobenius MAT_M MAT_N A sched;
     Some (\<lparr>printed_arrays = [A], printed_ref = ref, printed_res = res,
            printed_msg = (if isClose ref res 0.0001 then OK else ERROR)\<rparr>, 0)
   }"

section \<open>The dot product, one thread per element (second program of \<^verbatim>\<open>frobenius.c\<close>)\<close>

text \<open>\<^verbatim>\<open>#define N 10\<close>\<close>

definition PAIRS_N :: nat where "PAIRS_N = 10"

record ThreadData_pair =
  td_index :: nat
  td_a :: "real list"
  td_b :: "real list"

definition compute_product :: "ThreadData_pair \<Rightarrow> real \<Rightarrow> real option" where
  "compute_product data shared_sum = do {
     x \<leftarrow> load (td_a data) (td_index data);
     y \<leftarrow> load (td_b data) (td_index data);
     let product = x * y;
     Some (shared_sum + product)
   }"

definition pairs_thread_data :: "nat \<Rightarrow> real list \<Rightarrow> real list \<Rightarrow> ThreadData_pair list" where
  "pairs_thread_data n a b = map (\<lambda>i. \<lparr>td_index = i, td_a = a, td_b = b\<rparr>) [0..<n]"

definition dotprod_pairs :: "nat \<Rightarrow> real list \<Rightarrow> real list \<Rightarrow> nat list \<Rightarrow> real option" where
  "dotprod_pairs n a b sched = run_threads compute_product (pairs_thread_data n a b) sched 0"

text \<open>
  \<^verbatim>\<open>initArray\<close>, the same in both dot-product programs, with the running counter
  \<^verbatim>\<open>static double elem\<close> passed in and returned.
\<close>

definition initArray :: "nat \<Rightarrow> real list \<times> real \<Rightarrow> (real list \<times> real) option" where
  "initArray n =
     for_loop [0..<n]
       (\<lambda>i (a, elem). do {
          a' \<leftarrow> store a i elem;
          Some (a', elem + 1)
        })"

text \<open>
  Modelled from the spec: \<^verbatim>\<open>dotprod_ref\<close>, which both dot-product programs declare
  (\<^verbatim>\<open>double dotprod_ref(size_t n, double a[n], double b[n]);\<close>) and call, and whose
  definition is in a file that is not part of the sources at hand. The specification
  describes the sequential reference as the identical fold, the sum of \<open>a[i] * b[i]\<close>,
  computed single-threaded over the full buffer in one pass.
\<close>

definition dotprod_ref :: "nat \<Rightarrow> real list \<Rightarrow> real list \<Rightarrow> real option" where
  "dotprod_ref n a b =
     for_loop [0..<n]
       (\<lambda>i sum. do {
          x \<leftarrow> load a i;
          y \<leftarrow> load b i;
          Some (sum + x * y)
        }) 0"

text \<open>
  The \<^verbatim>\<open>main\<close> of a dot-product program is linked against some definition of
  \<^verbatim>\<open>dotprod_ref\<close>; it is a parameter of the model of \<^verbatim>\<open>main\<close>.
\<close>

definition main_pairs ::
  "(nat \<Rightarrow> real list \<Rightarrow> real list \<Rightarrow> real option) \<Rightarrow> nat list \<Rightarrow> (stdout \<times> int) option" where
  "main_pairs dotprod_ref_fn sched = do {
     (a, elem1) \<leftarrow> initArray PAIRS_N (replicate PAIRS_N 0, 0);
     (b, elem2) \<leftarrow> initArray PAIRS_N (replicate PAIRS_N 0, elem1);
     ref \<leftarrow> dotprod_ref_fn PAIRS_N a b;
     res \<leftarrow> dotprod_pairs PAIRS_N a b sched;
     Some (\<lparr>printed_arrays = [a, b], printed_ref = ref, printed_res = res,
            printed_msg = (if isClose ref res 0.0001 then OK else ERROR)\<rparr>, 0)
   }"

section \<open>The dot product, one thread per block\<close>

text \<open>\<^verbatim>\<open>#define N 9\<close> and \<^verbatim>\<open>#define K 3\<close>\<close>

definition BLOCKS_N :: nat where "BLOCKS_N = 9"
definition BLOCKS_K :: nat where "BLOCKS_K = 3"

record ThreadData_block =
  td_start :: nat
  td_end :: nat
  td_block_a :: "real list"
  td_block_b :: "real list"

definition compute_block :: "ThreadData_block \<Rightarrow> real \<Rightarrow> real option" where
  "compute_block data shared_sum = do {
     block_sum \<leftarrow> for_loop [td_start data..<td_end data]
       (\<lambda>i block_sum. do {
          x \<leftarrow> load (td_block_a data) i;
          y \<leftarrow> load (td_block_b data) i;
          Some (block_sum + x * y)
        }) 0;
     Some (shared_sum + block_sum)
   }"

text \<open>\<^verbatim>\<open>size_t nb_threads = n / k;\<close> The division by \<open>k = 0\<close> is undefined in C.\<close>

definition nb_threads :: "nat \<Rightarrow> nat \<Rightarrow> nat option" where
  "nb_threads n k = (if k = 0 then None else Some (n div k))"

definition blocks_thread_data ::
  "nat \<Rightarrow> nat \<Rightarrow> real list \<Rightarrow> real list \<Rightarrow> ThreadData_block list" where
  "blocks_thread_data nb k a b =
     map (\<lambda>i. \<lparr>td_start = i * k, td_end = (i + 1) * k, td_block_a = a, td_block_b = b\<rparr>)
       [0..<nb]"

definition dotprod_blocks ::
  "nat \<Rightarrow> nat \<Rightarrow> real list \<Rightarrow> real list \<Rightarrow> nat list \<Rightarrow> real option" where
  "dotprod_blocks n k a b sched = do {
     nb \<leftarrow> nb_threads n k;
     run_threads compute_block (blocks_thread_data nb k a b) sched 0
   }"

definition main_blocks ::
  "(nat \<Rightarrow> real list \<Rightarrow> real list \<Rightarrow> real option) \<Rightarrow> nat list \<Rightarrow> (stdout \<times> int) option" where
  "main_blocks dotprod_ref_fn sched = do {
     (a, elem1) \<leftarrow> initArray BLOCKS_N (replicate BLOCKS_N 0, 0);
     (b, elem2) \<leftarrow> initArray BLOCKS_N (replicate BLOCKS_N 0, elem1);
     ref \<leftarrow> dotprod_ref_fn BLOCKS_N a b;
     res \<leftarrow> dotprod_blocks BLOCKS_N BLOCKS_K a b sched;
     Some (\<lparr>printed_arrays = [a, b], printed_ref = ref, printed_res = res,
            printed_msg = (if isClose ref res 0.0001 then OK else ERROR)\<rparr>, 0)
   }"

section \<open>The validation step of each program\<close>





section \<open>Reference values\<close>

text \<open>The exact dot product of the first \<open>n\<close> cells, the sum of \<open>a[i] * b[i]\<close>.\<close>

definition dot :: "nat \<Rightarrow> real list \<Rightarrow> real list \<Rightarrow> real" where
  "dot n a b = sum_list (map (\<lambda>i. a ! i * b ! i) [0..<n])"

text \<open>The largest absolute value in row \<open>r\<close> of a matrix with \<^verbatim>\<open>N\<close> columns.\<close>

definition row_abs_max :: "real list \<Rightarrow> nat \<Rightarrow> real" where
  "row_abs_max A r = Max ((\<lambda>j. \<bar>A ! (r * MAT_N + j)\<bar>) ` {0..<MAT_N})"

text \<open>
  The sum of the squares of row \<open>r\<close> of a matrix with \<open>n\<close> columns, and of all entries.
\<close>

definition row_sum_squares :: "nat \<Rightarrow> real list \<Rightarrow> nat \<Rightarrow> real" where
  "row_sum_squares n A r = sum_list (map (\<lambda>j. A ! (r * n + j) * A ! (r * n + j)) [0..<n])"

definition sum_squares :: "nat \<Rightarrow> nat \<Rightarrow> real list \<Rightarrow> real" where
  "sum_squares m n A = sum_list (map (\<lambda>x. x * x) (entries m n A))"

text \<open>
  The body shared by the loops of \<^verbatim>\<open>initArray\<close> and \<^verbatim>\<open>initMatrix\<close>: write the
  counter into cell \<open>c\<close> and increment it.
\<close>

definition write_counter :: "nat \<Rightarrow> real list \<times> real \<Rightarrow> (real list \<times> real) option" where
  "write_counter c = (\<lambda>(A, elem). do { A' \<leftarrow> store A c elem; Some (A', elem + 1) })"

section \<open>Loops and memory accesses that stay in bounds\<close>

lemma for_loop_fold:
  "(\<And>i s. i \<in> set js \<Longrightarrow> body i s = Some (f i s)) \<Longrightarrow> for_loop js body s = Some (fold f js s)"
  by (induction js arbitrary: s) simp_all

lemma for_loop_append:
  "for_loop (xs @ ys) body s =
     (case for_loop xs body s of None \<Rightarrow> None | Some s' \<Rightarrow> for_loop ys body s')"
  by (induction xs arbitrary: s) (simp_all split: option.splits)

lemma run_threads_fold:
  assumes "\<And>t acc. t \<in> set sched \<Longrightarrow> t < length tds \<and> worker (tds ! t) acc = Some (f t acc)"
  shows "run_threads worker tds sched shared = Some (fold f sched shared)"
  unfolding run_threads_def
  by (rule for_loop_fold) (simp add: assms)

lemma load_in_bounds: "i < length buf \<Longrightarrow> load buf i = Some (buf ! i)"
  by (simp add: load_def)

lemma row_cell_in_bounds:
  assumes "r < m" "j < n" "length A = m * n"
  shows "r * n + j < length A"
proof -
  have "r * n + j < r * n + n" using assms(2) by simp
  also have "\<dots> = Suc r * n" by simp
  also have "\<dots> \<le> m * n" using assms(1) by (intro mult_le_mono1) simp
  finally show ?thesis using assms(3) by simp
qed

lemma is_schedule_upt: "is_schedule k [0..<k]"
  by (simp add: is_schedule_def)

section \<open>The max norm: parallel reduction and sequential reference\<close>

lemma fold_max_Max:
  fixes g :: "nat \<Rightarrow> real"
  shows "fold (\<lambda>j acc. if g j > acc then g j else acc) js a = Max (set (a # map g js))"
proof -
  have "(\<lambda>j acc. if g j > acc then g j else acc) = (\<lambda>j. max (g j))"
    by (auto simp: fun_eq_iff max_def)
  then have "fold (\<lambda>j acc. if g j > acc then g j else acc) js a = fold max (map g js) a"
    by (simp add: fold_map comp_def)
  then show ?thesis
    by (simp only: Max.set_eq_fold)
qed

lemma compute_row_max_value:
  assumes "r < m" "length A = m * MAT_N"
  shows "compute_row_max \<lparr>td_row = r, td_n = MAT_N, td_A = A\<rparr> shared
           = Some (max shared (row_abs_max A r))"
proof -
  let ?g = "\<lambda>j. \<bar>A ! (r * MAT_N + j)\<bar>"
  have N: "0 < MAT_N" by (simp add: MAT_N_def)
  have ld: "load A (r * MAT_N + j) = Some (A ! (r * MAT_N + j))" if "j < MAT_N" for j
    using row_cell_in_bounds [OF assms(1) that assms(2)] by (rule load_in_bounds)
  have loop: "for_loop [1..<MAT_N]
       (\<lambda>j local_max. do {
          x \<leftarrow> load A (r * MAT_N + j);
          Some (if \<bar>x\<bar> > local_max then \<bar>x\<bar> else local_max)
        }) \<bar>A ! (r * MAT_N)\<bar>
     = Some (fold (\<lambda>j acc. if ?g j > acc then ?g j else acc) [1..<MAT_N] (?g 0))"
    by (subst for_loop_fold [where f = "\<lambda>j acc. if ?g j > acc then ?g j else acc"])
       (simp_all add: ld)
  have "set (?g 0 # map ?g [1..<MAT_N]) = ?g ` {0..<MAT_N}"
  proof -
    have "{0..<MAT_N} = insert 0 {1..<MAT_N}" using N by auto
    then show ?thesis by simp
  qed
  then have "fold (\<lambda>j acc. if ?g j > acc then ?g j else acc) [1..<MAT_N] (?g 0) = row_abs_max A r"
    unfolding row_abs_max_def by (simp only: fold_max_Max)
  with loop ld [OF N] show ?thesis
    by (simp add: compute_row_max_def max_def)
qed

lemma max_par_value:
  assumes "0 < m" "length A = m * MAT_N" "is_schedule m sched"
  shows "max_par m MAT_N A sched = Some (Max (set (A ! 0 # map (row_abs_max A) [0..<m])))"
proof -
  have N: "0 < MAT_N" by (simp add: MAT_N_def)
  have sched: "set sched = {0..<m}" using assms(3) by (simp add: is_schedule_def)
  have "0 < length A" using assms(1,2) N by simp
  then have ld0: "load A 0 = Some (A ! 0)" by (rule load_in_bounds)
  have "run_threads compute_row_max (max_thread_data m MAT_N A) sched (A ! 0)
          = Some (fold (\<lambda>t acc. if row_abs_max A t > acc then row_abs_max A t else acc) sched (A ! 0))"
  proof (rule run_threads_fold)
    fix t acc assume "t \<in> set sched"
    then have t: "t < m" using sched by simp
    then show "t < length (max_thread_data m MAT_N A) \<and>
       compute_row_max (max_thread_data m MAT_N A ! t) acc
         = Some (if row_abs_max A t > acc then row_abs_max A t else acc)"
      using compute_row_max_value [OF t assms(2), of acc]
      by (simp add: max_thread_data_def max_def)
  qed
  also have "fold (\<lambda>t acc. if row_abs_max A t > acc then row_abs_max A t else acc) sched (A ! 0)
          = Max (set (A ! 0 # map (row_abs_max A) sched))"
    by (rule fold_max_Max)
  also have "set (A ! 0 # map (row_abs_max A) sched) = set (A ! 0 # map (row_abs_max A) [0..<m])"
    using sched by simp
  finally show ?thesis using ld0 by (simp add: max_par_def)
qed

lemma set_entries:
  "set (entries m n A) = {A ! (i * n + j) | i j. i < m \<and> j < n}"
  by (auto simp: entries_def) blast

lemma max_abs_eqI:
  assumes "\<And>i j. i < m \<Longrightarrow> j < n \<Longrightarrow> \<bar>A ! (i * n + j)\<bar> \<le> v"
    and "i0 < m" "j0 < n" "v = \<bar>A ! (i0 * n + j0)\<bar>"
  shows "max_abs m n A = v"
  unfolding max_abs_def
proof (rule Max_eqI)
  show "finite (set (map abs (entries m n A)))" by simp
  show "y \<le> v" if "y \<in> set (map abs (entries m n A))" for y
    using that assms(1) by (auto simp: set_entries)
  show "v \<in> set (map abs (entries m n A))"
    using assms(2-4) by (auto simp: set_entries)
qed

lemma row_abs_max_ge: "j < MAT_N \<Longrightarrow> \<bar>A ! (r * MAT_N + j)\<bar> \<le> row_abs_max A r"
  unfolding row_abs_max_def by (rule Max_ge) auto

lemma row_abs_max_attained: "\<exists>j<MAT_N. row_abs_max A r = \<bar>A ! (r * MAT_N + j)\<bar>"
proof -
  have "row_abs_max A r \<in> (\<lambda>j. \<bar>A ! (r * MAT_N + j)\<bar>) ` {0..<MAT_N}"
    unfolding row_abs_max_def by (rule Max_in) (simp_all add: MAT_N_def)
  then show ?thesis by auto
qed

lemma max_rows_is_max_abs:
  assumes "0 < m"
  shows "Max (set (A ! 0 # map (row_abs_max A) [0..<m])) = max_abs m MAT_N A"
proof -
  let ?S = "set (A ! 0 # map (row_abs_max A) [0..<m])"
  let ?v = "Max ?S"
  have N: "0 < MAT_N" by (simp add: MAT_N_def)
  have ge_row: "row_abs_max A r \<le> ?v" if "r < m" for r
    by (rule Max_ge) (use that in auto)
  have ge: "\<bar>A ! (i * MAT_N + j)\<bar> \<le> ?v" if "i < m" "j < MAT_N" for i j
    using row_abs_max_ge [OF that(2), of A i] ge_row [OF that(1)] by simp
  have "?v \<in> ?S" by (rule Max_in) simp_all
  then consider "?v = A ! 0" | r where "r < m" "?v = row_abs_max A r" by auto
  then obtain i0 j0 where "i0 < m" "j0 < MAT_N" "?v = \<bar>A ! (i0 * MAT_N + j0)\<bar>"
  proof cases
    case 1
    have "\<bar>A ! 0\<bar> \<le> ?v" using ge [OF assms N] by simp
    with 1 have "?v = \<bar>A ! (0 * MAT_N + 0)\<bar>" by simp
    with assms N that show ?thesis by blast
  next
    case 2
    with row_abs_max_attained [of A r] that show ?thesis by auto
  qed
  with ge show ?thesis by (intro max_abs_eqI [symmetric]) auto
qed

text \<open>
  Where the row length is \<^verbatim>\<open>N\<close> = 8, the stride of the type \<^verbatim>\<open>double (*A)[N]\<close> of
  the workers' data is the row length, and the parallel reduction \<^verbatim>\<open>max\<close> returns the
  maximum of \<open>|A[i][j]|\<close> over all entries, for every number of rows and in whatever
  order the row workers perform their combine steps.
\<close>

theorem max_par_is_max_abs:
  assumes "0 < m" "length A = m * MAT_N" "is_schedule m sched"
  shows "max_par m MAT_N A sched = Some (max_abs m MAT_N A)"
  using max_par_value [OF assms] max_rows_is_max_abs [OF assms(1), of A] by simp

theorem max_par_is_max_abs_witness:
  "is_schedule 2 [1, 0] \<and>
   max_par 2 MAT_N [1, -9, 3, 4, 0, 2, -5, 6, 7, 0, -2, 8, 1, 1, -3, 5] [1, 0] = Some 9"
proof -
  let ?A = "[1, -9, 3, 4, 0, 2, -5, 6, 7, 0, -2, 8, 1, 1, -3, 5] :: real list"
  have s: "is_schedule 2 [1, 0]" by (auto simp: is_schedule_def)
  have "max_abs 2 MAT_N ?A = 9"
    by (simp add: max_abs_def entries_def MAT_N_def upt_rec)
  with max_par_is_max_abs [of 2 ?A "[1, 0]", OF _ _ s] s
  show ?thesis by (simp add: MAT_N_def)
qed

text \<open>
  Claim C1. For every matrix with at least one row and one column, the parallel reduction
  \<^verbatim>\<open>max\<close> is to return the maximum of \<open>|A[i][j]|\<close> over all entries, in whatever
  order the workers combine. The code does not on the matrix of 2 rows and 9 columns whose
  only non-zero entry is \<open>A[1][8] = 1\<close>, the last cell of the buffer: \<^verbatim>\<open>max\<close> passes
  \<open>n = 9\<close> to its workers, which loop to \<^verbatim>\<open>data->n\<close> but read
  \<^verbatim>\<open>data->A[row][j]\<close> with the stride 8, at the cells 0 to 8 and 8 to 16. No worker
  reads cell 17 and \<^verbatim>\<open>max\<close> returns 0, where the maximum, which the sequential
  \<^verbatim>\<open>max_ref\<close> returns, is 1.
\<close>

theorem max_par_misses_entry_with_9_columns:
  "length (replicate 17 0 @ [1 :: real]) = 2 * 9 \<and> is_schedule 2 [0, 1] \<and>
   max_par 2 9 (replicate 17 0 @ [1]) [0, 1] = Some 0 \<and>
   max_abs 2 9 (replicate 17 0 @ [1]) = 1 \<and>
   max_ref 2 9 (replicate 17 0 @ [1]) = Some 1"
  by code_simp

text \<open>
  Claim C2. The sequential reference \<^verbatim>\<open>max_ref\<close> is to return the maximum of
  \<open>|A[i][j]|\<close>, as the parallel version does. On the matrix of 1 row and 8 columns
  \<open>-3, 1, 2, 0, 0, 0, 0, 0\<close> it returns 2, where the maximum of the absolute values, which
  the parallel version returns, is 3: \<^verbatim>\<open>max_ref\<close> starts from \<^verbatim>\<open>A[0][0]\<close>, compares
  \<^verbatim>\<open>fabs(A[i][j])\<close> with the running value and then stores \<^verbatim>\<open>A[i][j]\<close>, not its
  absolute value.
\<close>

theorem max_ref_negative_entry:
  "max_ref 1 8 [-3, 1, 2, 0, 0, 0, 0, 0] = Some 2 \<and>
   max_abs 1 8 [-3, 1, 2, 0, 0, 0, 0, 0] = 3 \<and>
   max_par 1 8 [-3, 1, 2, 0, 0, 0, 0, 0] [0] = Some 3"
  by code_simp

section \<open>The Frobenius norm: parallel reduction and sequential reference\<close>

lemma fold_add_sum_list:
  fixes g :: "nat \<Rightarrow> real"
  shows "fold (\<lambda>j acc. acc + g j) js a = a + sum_list (map g js)"
  by (induction js arbitrary: a) simp_all

lemma sum_list_schedule:
  fixes f :: "nat \<Rightarrow> real"
  assumes "is_schedule k sched"
  shows "sum_list (map f sched) = sum_list (map f [0..<k])"
proof -
  have "sum_list (map f sched) = sum f (set sched)"
    using assms by (simp add: is_schedule_def sum_list_distinct_conv_sum_set)
  also have "\<dots> = sum f (set [0..<k])"
    using assms by (simp add: is_schedule_def)
  also have "\<dots> = sum_list (map f [0..<k])"
    by (simp add: sum_list_distinct_conv_sum_set)
  finally show ?thesis .
qed

lemma sum_list_concat_real:
  fixes xss :: "real list list"
  shows "sum_list (concat xss) = sum_list (map sum_list xss)"
  by (induction xss) simp_all

lemma sum_squares_rows:
  "sum_squares m n A = sum_list (map (row_sum_squares n A) [0..<m])"
  by (simp add: sum_squares_def entries_def row_sum_squares_def [abs_def] map_concat
      sum_list_concat_real comp_def)

lemma row_loop_sum_squares:
  assumes "r < m" "length A = m * n"
  shows "for_loop [0..<n]
       (\<lambda>j acc. do {
          x \<leftarrow> load A (r * n + j);
          y \<leftarrow> load A (r * n + j);
          Some (acc + x * y)
        }) a = Some (a + row_sum_squares n A r)"
proof -
  let ?g = "\<lambda>j. A ! (r * n + j) * A ! (r * n + j)"
  have ld: "load A (r * n + j) = Some (A ! (r * n + j))" if "j < n" for j
    using row_cell_in_bounds [OF assms(1) that assms(2)] by (rule load_in_bounds)
  show ?thesis
    unfolding row_sum_squares_def fold_add_sum_list [symmetric]
    by (rule for_loop_fold) (simp add: ld)
qed

lemma compute_row_sum_value:
  assumes "r < m" "length A = m * MAT_N"
  shows "compute_row_sum \<lparr>td_row = r, td_n = MAT_N, td_A = A\<rparr> shared
           = Some (shared + row_sum_squares MAT_N A r)"
  by (simp add: compute_row_sum_def row_loop_sum_squares [OF assms])

lemma frobenius_ref_value:
  assumes "length A = m * n"
  shows "frobenius_ref m n A = Some (sqrt (sum_squares m n A))"
proof -
  have "for_loop [0..<m]
       (\<lambda>i. for_loop [0..<n]
          (\<lambda>j frob. do {
             x \<leftarrow> load A (i * n + j);
             y \<leftarrow> load A (i * n + j);
             Some (frob + x * y)
           })) 0
     = Some (fold (\<lambda>i acc. acc + row_sum_squares n A i) [0..<m] 0)"
    by (rule for_loop_fold) (simp add: row_loop_sum_squares [OF _ assms])
  then show ?thesis
    by (simp add: frobenius_ref_def fold_add_sum_list sum_squares_rows)
qed

lemma frobenius_value:
  assumes "length A = m * MAT_N" "is_schedule m sched"
  shows "frobenius m MAT_N A sched = Some (sqrt (sum_squares m MAT_N A))"
proof -
  have sched: "set sched = {0..<m}" using assms(2) by (simp add: is_schedule_def)
  have "run_threads compute_row_sum (frobenius_thread_data m MAT_N A) sched 0
          = Some (fold (\<lambda>t acc. acc + row_sum_squares MAT_N A t) sched 0)"
  proof (rule run_threads_fold)
    fix t acc assume "t \<in> set sched"
    then have t: "t < m" using sched by simp
    then show "t < length (frobenius_thread_data m MAT_N A) \<and>
       compute_row_sum (frobenius_thread_data m MAT_N A ! t) acc
         = Some (acc + row_sum_squares MAT_N A t)"
      using compute_row_sum_value [OF t assms(1), of acc]
      by (simp add: frobenius_thread_data_def)
  qed
  then show ?thesis
    by (simp add: frobenius_def fold_add_sum_list sum_list_schedule [OF assms(2)] sum_squares_rows)
qed

text \<open>
  Where the row length is \<^verbatim>\<open>N\<close> = 8, under exact arithmetic, the parallel
  \<^verbatim>\<open>frobenius\<close> (the row workers add their sums of squares to the shared accumulator,
  which starts at 0 and is square-rooted after the joins) returns what the sequential
  \<^verbatim>\<open>frobenius_ref\<close> returns, the square root of the sum of the squares of all entries,
  for every number of rows and in whatever order the workers add.
\<close>

theorem frobenius_eq_frobenius_ref:
  assumes "0 < m" "length A = m * MAT_N" "is_schedule m sched"
  shows "frobenius m MAT_N A sched = frobenius_ref m MAT_N A \<and>
         frobenius_ref m MAT_N A = Some (sqrt (sum_squares m MAT_N A))"
  using frobenius_value [OF assms(2,3)] frobenius_ref_value [OF assms(2)] by simp

theorem frobenius_eq_frobenius_ref_witness:
  "is_schedule 2 [1, 0] \<and>
   frobenius 2 MAT_N [1, 2, 0, 0, 2, 0, 4, 0, 0, 0, 0, 0, 0, 0, 0, 0] [1, 0] = Some 5 \<and>
   frobenius_ref 2 MAT_N [1, 2, 0, 0, 2, 0, 4, 0, 0, 0, 0, 0, 0, 0, 0, 0] = Some 5"
proof -
  let ?A = "[1, 2, 0, 0, 2, 0, 4, 0, 0, 0, 0, 0, 0, 0, 0, 0] :: real list"
  have s: "is_schedule 2 [1, 0]" by code_simp
  have "sum_squares 2 MAT_N ?A = 5 * 5"
    by code_simp
  with frobenius_eq_frobenius_ref [of 2 ?A "[1, 0]", OF _ _ s] s
  show ?thesis by (simp add: MAT_N_def del: mult_numeral_1)
qed

text \<open>
  Claim C6. For every matrix with at least one row and one column, under exact arithmetic,
  the parallel \<^verbatim>\<open>frobenius\<close> is to equal the sequential \<^verbatim>\<open>frobenius_ref\<close>, in whatever
  order the row workers add their partial sums. The code does not on the matrix of 2 rows
  and 9 columns whose only non-zero entry is \<open>A[1][8] = 1\<close>: \<^verbatim>\<open>frobenius\<close> passes
  \<open>n = 9\<close> to its workers, which loop to \<^verbatim>\<open>data->n\<close> but read with the stride 8, at
  the cells 0 to 8 and 8 to 16 of the buffer and never at cell 17. The parallel result is 0
  where the reference returns 1.
\<close>

theorem frobenius_differs_with_9_columns:
  "length (replicate 17 0 @ [1 :: real]) = 2 * 9 \<and> is_schedule 2 [0, 1] \<and>
   frobenius 2 9 (replicate 17 0 @ [1]) [0, 1] = Some 0 \<and>
   frobenius_ref 2 9 (replicate 17 0 @ [1]) = Some 1"
proof -
  have "frobenius_ref 2 9 (replicate 17 0 @ [1]) = Some (sqrt (sum_squares 2 9 (replicate 17 0 @ [1])))"
    by (rule frobenius_ref_value) simp
  moreover have "sum_squares 2 9 (replicate 17 0 @ [1]) = 1"
    by code_simp
  moreover have "run_threads compute_row_sum (frobenius_thread_data 2 9 (replicate 17 0 @ [1])) [0, 1] 0 = Some 0"
    by code_simp
  moreover have "is_schedule 2 [0, 1]"
    by code_simp
  ultimately show ?thesis by (simp add: frobenius_def)
qed

section \<open>The dot products\<close>

lemma dot_loop:
  assumes "hi \<le> length a" "hi \<le> length b"
  shows "for_loop [lo..<hi]
       (\<lambda>i acc. do {
          x \<leftarrow> load a i;
          y \<leftarrow> load b i;
          Some (acc + x * y)
        }) s = Some (s + sum_list (map (\<lambda>i. a ! i * b ! i) [lo..<hi]))"
  unfolding fold_add_sum_list [symmetric]
  by (rule for_loop_fold) (use assms in \<open>simp add: load_in_bounds\<close>)

lemma dotprod_ref_value:
  assumes "n \<le> length a" "n \<le> length b"
  shows "dotprod_ref n a b = Some (dot n a b)"
  by (simp add: dotprod_ref_def dot_def dot_loop [OF assms])

lemma compute_product_value:
  assumes "i < length a" "i < length b"
  shows "compute_product \<lparr>td_index = i, td_a = a, td_b = b\<rparr> shared = Some (shared + a ! i * b ! i)"
  using assms by (simp add: compute_product_def load_in_bounds)

lemma dotprod_pairs_value:
  assumes "n \<le> length a" "n \<le> length b" "is_schedule n sched"
  shows "dotprod_pairs n a b sched = Some (dot n a b)"
proof -
  have sched: "set sched = {0..<n}" using assms(3) by (simp add: is_schedule_def)
  have "run_threads compute_product (pairs_thread_data n a b) sched 0
          = Some (fold (\<lambda>t acc. acc + a ! t * b ! t) sched 0)"
  proof (rule run_threads_fold)
    fix t acc assume "t \<in> set sched"
    then have t: "t < n" using sched by simp
    with assms(1,2) show "t < length (pairs_thread_data n a b) \<and>
       compute_product (pairs_thread_data n a b ! t) acc = Some (acc + a ! t * b ! t)"
      by (simp add: pairs_thread_data_def compute_product_value)
  qed
  then show ?thesis
    by (simp add: dotprod_pairs_def dot_def fold_add_sum_list sum_list_schedule [OF assms(3)])
qed

lemma compute_block_value:
  assumes "hi \<le> length a" "hi \<le> length b"
  shows "compute_block \<lparr>td_start = lo, td_end = hi, td_block_a = a, td_block_b = b\<rparr> shared
           = Some (shared + sum_list (map (\<lambda>i. a ! i * b ! i) [lo..<hi]))"
  by (simp add: compute_block_def dot_loop [OF assms])

lemma sum_list_blocks:
  fixes f :: "nat \<Rightarrow> real"
  shows "sum_list (map (\<lambda>t. sum_list (map f [t * k..<(t + 1) * k])) [0..<q])
           = sum_list (map f [0..<q * k])"
proof (induction q)
  case 0
  show ?case by simp
next
  case (Suc q)
  have "[0..<Suc q * k] = [0..<q * k] @ [q * k..<(q + 1) * k]"
    using upt_add_eq_append [of 0 "q * k" k] by (simp add: add.commute)
  with Suc show ?case by simp
qed

lemma dotprod_blocks_value:
  assumes "0 < k" "n \<le> length a" "n \<le> length b" "is_schedule (n div k) sched"
  shows "dotprod_blocks n k a b sched = Some (dot (n div k * k) a b)"
proof -
  let ?B = "\<lambda>t. sum_list (map (\<lambda>i. a ! i * b ! i) [t * k..<(t + 1) * k])"
  have sched: "set sched = {0..<n div k}" using assms(4) by (simp add: is_schedule_def)
  have "run_threads compute_block (blocks_thread_data (n div k) k a b) sched 0
          = Some (fold (\<lambda>t acc. acc + ?B t) sched 0)"
  proof (rule run_threads_fold)
    fix t acc assume "t \<in> set sched"
    then have t: "t < n div k" using sched by simp
    then have "(t + 1) * k \<le> n div k * k" by (intro mult_le_mono1) simp
    also have "\<dots> \<le> n" by simp
    finally have "(t + 1) * k \<le> length a" "(t + 1) * k \<le> length b"
      using assms(2,3) by simp_all
    with t show "t < length (blocks_thread_data (n div k) k a b) \<and>
       compute_block (blocks_thread_data (n div k) k a b ! t) acc = Some (acc + ?B t)"
      by (simp add: blocks_thread_data_def compute_block_value)
  qed
  also have "fold (\<lambda>t acc. acc + ?B t) sched 0 = sum_list (map ?B [0..<n div k])"
    by (simp only: fold_add_sum_list sum_list_schedule [OF assms(4)] add_0)
  also have "\<dots> = dot (n div k * k) a b"
    unfolding dot_def by (rule sum_list_blocks)
  finally show ?thesis
    using assms(1) by (simp add: dotprod_blocks_def nb_threads_def)
qed

text \<open>
  Claim C5. For all vectors \<open>a\<close> and \<open>b\<close> of the same length \<open>n\<close>, under exact
  arithmetic, \<^verbatim>\<open>dotprod_pairs(n, a, b)\<close> and \<^verbatim>\<open>dotprod_blocks(n, k, a, b)\<close>, for a
  block size \<open>k \<ge> 1\<close> that divides \<open>n\<close> evenly, return the same value, the sum of
  \<open>a[i] * b[i]\<close> over all \<open>i < n\<close>, for every order in which the workers perform
  their additions under the mutex.
\<close>

theorem dotprod_pairs_blocks_agree:
  assumes "length a = n" "length b = n" "0 < k" "n mod k = 0"
    and "is_schedule n sched_pairs" "is_schedule (n div k) sched_blocks"
  shows "dotprod_pairs n a b sched_pairs = Some (dot n a b) \<and>
         dotprod_blocks n k a b sched_blocks = Some (dot n a b)"
proof -
  have "n div k * k = n" using assms(4) by (simp add: mod_eq_0_iff_dvd)
  then show ?thesis
    using dotprod_pairs_value [of n a b sched_pairs] dotprod_blocks_value [of k n a b sched_blocks] assms
    by simp
qed

theorem dotprod_pairs_blocks_agree_witness:
  "dotprod_pairs 4 [1, 2, 3, 4] [5, 6, 7, 8] [3, 1, 0, 2] = Some 70 \<and>
   dotprod_blocks 4 2 [1, 2, 3, 4] [5, 6, 7, 8] [1, 0] = Some 70"
proof -
  have s1: "is_schedule 4 [3, 1, 0, 2]" by code_simp
  have s2: "is_schedule (4 div 2) [1, 0]" by code_simp
  have "dot 4 [1, 2, 3, 4] [5, 6, 7, 8] = 70" by code_simp
  with dotprod_pairs_blocks_agree [of "[1, 2, 3, 4]" 4 "[5, 6, 7, 8]" 2, OF _ _ _ _ s1 s2]
  show ?thesis by simp
qed

text \<open>
  Claim C9. For every \<open>n\<close> and every block size \<open>k \<ge> 1\<close> that does not divide \<open>n\<close>
  evenly, \<^verbatim>\<open>dotprod_blocks(n, k, a, b)\<close> returns, with no error, the sum of
  \<open>a[i] * b[i]\<close> over the indices below \<open>(n div k) * k\<close> only, which leaves out the last
  \<open>n mod k\<close> cells; when \<open>k > n\<close> it creates no thread and returns 0.
\<close>

theorem dotprod_blocks_truncates:
  assumes "1 \<le> k" "n mod k \<noteq> 0" "length a = n" "length b = n"
    and "is_schedule (n div k) sched"
  shows "dotprod_blocks n k a b sched = Some (dot (n div k * k) a b)
       \<and> n div k * k = n - n mod k \<and> n div k * k < n
       \<and> (n < k \<longrightarrow> nb_threads n k = Some 0 \<and> sched = []
                    \<and> dotprod_blocks n k a b sched = Some 0)"
proof -
  have v: "dotprod_blocks n k a b sched = Some (dot (n div k * k) a b)"
    using dotprod_blocks_value [of k n a b sched] assms by simp
  have eq: "n div k * k = n - n mod k"
    by (simp add: minus_mod_eq_div_mult)
  have lt: "n div k * k < n"
  proof -
    have "n mod k \<le> n" by simp
    with assms(2) eq show ?thesis by linarith
  qed
  have "nb_threads n k = Some 0 \<and> sched = [] \<and> dotprod_blocks n k a b sched = Some 0" if "n < k"
  proof -
    have "n div k = 0" using that by simp
    moreover from this have "sched = []" using assms(5) by (simp add: is_schedule_def)
    moreover have "dot 0 a b = 0" by (simp add: dot_def)
    ultimately show ?thesis using v assms(1) by (simp add: nb_threads_def)
  qed
  with v eq lt show ?thesis by blast
qed

theorem dotprod_blocks_truncates_witness:
  "dotprod_blocks 5 2 [1, 2, 3, 4, 100] [1, 1, 1, 1, 1] [1, 0] = Some 10
   \<and> nb_threads 2 3 = Some 0 \<and> dotprod_blocks 2 3 [7, 8] [1, 1] [] = Some 0"
proof -
  have s1: "is_schedule (5 div 2) [1, 0]" by code_simp
  have s2: "is_schedule (2 div 3) []" by code_simp
  have "dot (5 div 2 * 2) [1, 2, 3, 4, 100] [1, 1, 1, 1, 1] = 10" by code_simp
  with dotprod_blocks_truncates [of 2 5 "[1, 2, 3, 4, 100]" "[1, 1, 1, 1, 1]" "[1, 0]", OF _ _ _ _ s1]
    dotprod_blocks_truncates [of 3 2 "[7, 8]" "[1, 1]" "[]", OF _ _ _ _ s2]
  show ?thesis by (simp add: dot_def)
qed

section \<open>The initialisers and their running counter\<close>

lemma for_loop_map: "for_loop (map g js) body s = for_loop js (\<lambda>j. body (g j)) s"
  by (induction js arbitrary: s) (simp_all split: option.splits)

lemma fill_cells:
  "k \<le> length A0 \<Longrightarrow>
   for_loop [0..<k] write_counter (A0, e)
     = Some (map (\<lambda>i. e + real i) [0..<k] @ drop k A0, e + real k)"
proof (induction k)
  case 0
  show ?case by simp
next
  case (Suc k)
  then have k: "k < length A0" by simp
  let ?xs = "map (\<lambda>i. e + real i) [0..<k]"
  have "store (?xs @ drop k A0) k (e + real k) = Some (?xs @ (e + real k) # drop (Suc k) A0)"
    using k by (simp add: store_def list_update_append Cons_nth_drop_Suc [symmetric])
  then show ?case
    using Suc k by (simp add: for_loop_append write_counter_def add.assoc)
qed

lemma nested_loop_flat:
  "for_loop [0..<m] (\<lambda>i. for_loop [0..<n] (\<lambda>j. body (i * n + j))) s
     = for_loop [0..<m * n] body s"
proof (induction m arbitrary: s)
  case 0
  show ?case by simp
next
  case (Suc m)
  have "[m * n..<m * n + n] = map (\<lambda>j. m * n + j) [0..<n]"
    using map_add_upt [of "m * n" n] by (simp add: add.commute)
  then have row: "for_loop [m * n..<m * n + n] body t = for_loop [0..<n] (\<lambda>j. body (m * n + j)) t" for t
    by (simp only: for_loop_map)
  have split: "[0..<Suc m * n] = [0..<m * n] @ [m * n..<m * n + n]"
    using upt_add_eq_append [of 0 "m * n" n] by (simp add: add.commute)
  have "for_loop [0..<Suc m] (\<lambda>i. for_loop [0..<n] (\<lambda>j. body (i * n + j))) s
      = (case for_loop [0..<m * n] body s of None \<Rightarrow> None
         | Some s' \<Rightarrow> for_loop [0..<n] (\<lambda>j. body (m * n + j)) s')"
    by (simp add: for_loop_append Suc split: option.splits)
  also have "\<dots> = for_loop [0..<Suc m * n] body s"
    unfolding split for_loop_append by (simp add: row split: option.splits)
  finally show ?case .
qed

lemma initArray_fills:
  assumes "length a0 = n"
  shows "initArray n (a0, e) = Some (map (\<lambda>i. e + real i) [0..<n], e + real n)"
proof -
  have "initArray n = for_loop [0..<n] write_counter"
    by (simp add: initArray_def write_counter_def [abs_def])
  then show ?thesis using fill_cells [of n a0 e] assms by simp
qed

lemma initMatrix_fills:
  assumes "length A0 = m * n"
  shows "initMatrix m n (A0, e) = Some (map (\<lambda>i. e + real i) [0..<m * n], e + real (m * n))"
proof -
  have "initMatrix m n (A0, e)
          = for_loop [0..<m] (\<lambda>i. for_loop [0..<n] (\<lambda>j. write_counter (i * n + j))) (A0, e)"
    by (simp add: initMatrix_def write_counter_def [abs_def])
  then show ?thesis using fill_cells [of "m * n" A0 e] assms by (simp add: nested_loop_flat)
qed

section \<open>The four programs\<close>

lemma max_ref_returns:
  assumes "0 < m" "0 < n" "length A = m * n"
  shows "\<exists>v. max_ref m n A = Some v"
proof -
  let ?f = "\<lambda>i j acc. if \<bar>A ! (i * n + j)\<bar> > acc then A ! (i * n + j) else acc"
  have ld: "load A (i * n + j) = Some (A ! (i * n + j))" if "i < m" "j < n" for i j
    using row_cell_in_bounds [OF that assms(3)] by (rule load_in_bounds)
  have inner: "for_loop [0..<n]
          (\<lambda>j maxElem. do {
             x \<leftarrow> load A (i * n + j);
             Some (if \<bar>x\<bar> > maxElem then x else maxElem)
           }) acc = Some (fold (?f i) [0..<n] acc)" if "i < m" for i acc
    by (rule for_loop_fold) (simp add: ld [OF that])
  have "for_loop [0..<m]
       (\<lambda>i. for_loop [0..<n]
          (\<lambda>j maxElem. do {
             x \<leftarrow> load A (i * n + j);
             Some (if \<bar>x\<bar> > maxElem then x else maxElem)
           })) (A ! 0) = Some (fold (\<lambda>i. fold (?f i) [0..<n]) [0..<m] (A ! 0))"
    by (rule for_loop_fold) (simp add: inner)
  moreover have "load A 0 = Some (A ! 0)"
    using ld [OF assms(1,2)] by simp
  ultimately show ?thesis by (simp add: max_ref_def)
qed

lemma init_5_8: "initMatrix MAT_M MAT_N (replicate (MAT_M * MAT_N) 0, 0) = Some (map real [0..<40], 40)"
  using initMatrix_fills [of "replicate (MAT_M * MAT_N) 0" MAT_M MAT_N 0]
  by (simp add: MAT_M_def MAT_N_def)

lemma max_ref_5_8: "max_ref MAT_M MAT_N (map real [0..<40]) = Some 39"
  by code_simp

lemma max_abs_5_8: "max_abs MAT_M MAT_N (map real [0..<40]) = 39"
  by code_simp

lemma main_max_run:
  assumes "is_schedule MAT_M sched"
  shows "main_max sched = Some (\<lparr>printed_arrays = [map real [0..<40]], printed_ref = 39,
            printed_res = 39, printed_msg = OK\<rparr>, 0)"
proof -
  have "max_par MAT_M MAT_N (map real [0..<40]) sched = Some 39"
    using max_par_value [OF _ _ assms, of "map real [0..<40]"]
      max_rows_is_max_abs [of MAT_M "map real [0..<40]"] max_abs_5_8
    by (simp add: MAT_M_def MAT_N_def)
  then show ?thesis
    by (simp add: main_max_def init_5_8 max_ref_5_8)
qed

lemma sum_squares_5_8: "sum_squares MAT_M MAT_N (map real [0..<40]) = 20540"
  by code_simp

lemma main_frobenius_run:
  assumes "is_schedule MAT_M sched"
  shows "main_frobenius sched = Some (\<lparr>printed_arrays = [map real [0..<40]],
            printed_ref = sqrt 20540, printed_res = sqrt 20540, printed_msg = OK\<rparr>, 0)"
proof -
  have len: "length (map real [0..<40]) = MAT_M * MAT_N" by (simp add: MAT_M_def MAT_N_def)
  have "frobenius MAT_M MAT_N (map real [0..<40]) sched = Some (sqrt 20540)"
    using frobenius_value [OF len assms] by (simp add: sum_squares_5_8)
  moreover have "frobenius_ref MAT_M MAT_N (map real [0..<40]) = Some (sqrt 20540)"
    using frobenius_ref_value [OF len] by (simp add: sum_squares_5_8)
  ultimately show ?thesis
    by (simp add: main_frobenius_def init_5_8 isClose_def)
qed

lemma init_pairs_a:
  "initArray PAIRS_N (replicate PAIRS_N 0, 0) = Some ([0, 1, 2, 3, 4, 5, 6, 7, 8, 9], 10)"
  by code_simp

lemma init_pairs_b:
  "initArray PAIRS_N (replicate PAIRS_N 0, 10) = Some ([10, 11, 12, 13, 14, 15, 16, 17, 18, 19], 20)"
  by code_simp

lemma dot_pairs: "dot PAIRS_N [0, 1, 2, 3, 4, 5, 6, 7, 8, 9] [10, 11, 12, 13, 14, 15, 16, 17, 18, 19] = 735"
  by code_simp

lemma main_pairs_run:
  assumes "is_schedule PAIRS_N sched"
    and "f PAIRS_N [0, 1, 2, 3, 4, 5, 6, 7, 8, 9] [10, 11, 12, 13, 14, 15, 16, 17, 18, 19] = Some r"
  shows "main_pairs f sched = Some (\<lparr>printed_arrays = [[0, 1, 2, 3, 4, 5, 6, 7, 8, 9],
              [10, 11, 12, 13, 14, 15, 16, 17, 18, 19]],
            printed_ref = r, printed_res = 735,
            printed_msg = (if \<bar>r - 735\<bar> < 0.0001 then OK else ERROR)\<rparr>, 0)"
proof -
  have "dotprod_pairs PAIRS_N [0, 1, 2, 3, 4, 5, 6, 7, 8, 9] [10, 11, 12, 13, 14, 15, 16, 17, 18, 19] sched
          = Some 735"
    using dotprod_pairs_value [OF _ _ assms(1), of "[0, 1, 2, 3, 4, 5, 6, 7, 8, 9]" "[10, 11, 12, 13, 14, 15, 16, 17, 18, 19]"]
    by (simp add: dot_pairs) (simp add: PAIRS_N_def)
  then show ?thesis
    by (simp add: main_pairs_def init_pairs_a init_pairs_b assms(2) isClose_def)
qed

lemma init_blocks_a:
  "initArray BLOCKS_N (replicate BLOCKS_N 0, 0) = Some ([0, 1, 2, 3, 4, 5, 6, 7, 8], 9)"
  by code_simp

lemma init_blocks_b:
  "initArray BLOCKS_N (replicate BLOCKS_N 0, 9) = Some ([9, 10, 11, 12, 13, 14, 15, 16, 17], 18)"
  by code_simp

lemma dot_blocks: "dot BLOCKS_N [0, 1, 2, 3, 4, 5, 6, 7, 8] [9, 10, 11, 12, 13, 14, 15, 16, 17] = 528"
  by code_simp

lemma main_blocks_run:
  assumes "is_schedule (BLOCKS_N div BLOCKS_K) sched"
    and "f BLOCKS_N [0, 1, 2, 3, 4, 5, 6, 7, 8] [9, 10, 11, 12, 13, 14, 15, 16, 17] = Some r"
  shows "main_blocks f sched = Some (\<lparr>printed_arrays = [[0, 1, 2, 3, 4, 5, 6, 7, 8],
              [9, 10, 11, 12, 13, 14, 15, 16, 17]],
            printed_ref = r, printed_res = 528,
            printed_msg = (if \<bar>r - 528\<bar> < 0.0001 then OK else ERROR)\<rparr>, 0)"
proof -
  have "BLOCKS_N div BLOCKS_K * BLOCKS_K = BLOCKS_N" by (simp add: BLOCKS_N_def BLOCKS_K_def)
  then have "dotprod_blocks BLOCKS_N BLOCKS_K [0, 1, 2, 3, 4, 5, 6, 7, 8] [9, 10, 11, 12, 13, 14, 15, 16, 17] sched
          = Some 528"
    using dotprod_blocks_value [OF _ _ _ assms(1), of "[0, 1, 2, 3, 4, 5, 6, 7, 8]" "[9, 10, 11, 12, 13, 14, 15, 16, 17]"]
    by (simp add: dot_blocks) (simp add: BLOCKS_N_def BLOCKS_K_def)
  then show ?thesis
    by (simp add: main_blocks_def init_blocks_a init_blocks_b assms(2) isClose_def)
qed

lemma is_schedule_5: "is_schedule MAT_M [3, 0, 4, 1, 2]"
  by code_simp

lemma is_schedule_10: "is_schedule PAIRS_N [0, 1, 2, 3, 4, 5, 6, 7, 8, 9]"
  by code_simp

lemma is_schedule_3: "is_schedule (BLOCKS_N div BLOCKS_K) [1, 2, 0]"
  by code_simp

text \<open>
  Claim C3 as stated fails: the counter of \<^verbatim>\<open>initArray\<close> is \<^verbatim>\<open>static\<close>, so the
  second call, which fills \<open>b\<close>, goes on from 10. The program prints
  \<open>a = [0..9]\<close> and \<open>b = [10..19]\<close>, and the parallel result is 735, not 285.
\<close>

theorem main_pairs_arrays_differ:
  "initArray PAIRS_N (replicate PAIRS_N 0, 0) = Some ([0, 1, 2, 3, 4, 5, 6, 7, 8, 9], 10) \<and>
   initArray PAIRS_N (replicate PAIRS_N 0, 10)
     = Some ([10, 11, 12, 13, 14, 15, 16, 17, 18, 19], 20) \<and>
   dotprod_pairs PAIRS_N [0, 1, 2, 3, 4, 5, 6, 7, 8, 9] [10, 11, 12, 13, 14, 15, 16, 17, 18, 19]
     [0, 1, 2, 3, 4, 5, 6, 7, 8, 9] = Some 735 \<and>
   map_option (\<lambda>(out, c). (printed_arrays out, printed_res out))
     (main_pairs dotprod_ref [0, 1, 2, 3, 4, 5, 6, 7, 8, 9])
     = Some ([[0, 1, 2, 3, 4, 5, 6, 7, 8, 9], [10, 11, 12, 13, 14, 15, 16, 17, 18, 19]], 735)"
  by code_simp

text \<open>
  Claim C3, as amended. In the per-element dot-product program the array \<open>a\<close> is
  \<open>[0..9]\<close> and the array \<open>b\<close> is \<open>[10..19]\<close>, the sequential reference and the
  parallel pairwise dot product both equal 735, and the program prints the \<open>OK\<close> line,
  for every order of the workers.
\<close>

theorem main_pairs_result:
  assumes "is_schedule PAIRS_N sched"
  shows "main_pairs dotprod_ref sched
    = Some (\<lparr>printed_arrays = [[0, 1, 2, 3, 4, 5, 6, 7, 8, 9],
                                [10, 11, 12, 13, 14, 15, 16, 17, 18, 19]],
             printed_ref = 735, printed_res = 735, printed_msg = OK\<rparr>, 0)"
proof -
  have "dotprod_ref PAIRS_N [0, 1, 2, 3, 4, 5, 6, 7, 8, 9] [10, 11, 12, 13, 14, 15, 16, 17, 18, 19]
          = Some 735"
    using dotprod_ref_value [of PAIRS_N "[0, 1, 2, 3, 4, 5, 6, 7, 8, 9]" "[10, 11, 12, 13, 14, 15, 16, 17, 18, 19]"]
    by (simp add: dot_pairs) (simp add: PAIRS_N_def)
  from main_pairs_run [where f = dotprod_ref, OF assms this] show ?thesis by simp
qed

theorem main_pairs_result_witness:
  "is_schedule PAIRS_N [9, 8, 7, 6, 5, 4, 3, 2, 1, 0] \<and>
   main_pairs dotprod_ref [9, 8, 7, 6, 5, 4, 3, 2, 1, 0]
    = Some (\<lparr>printed_arrays = [[0, 1, 2, 3, 4, 5, 6, 7, 8, 9],
                                [10, 11, 12, 13, 14, 15, 16, 17, 18, 19]],
             printed_ref = 735, printed_res = 735, printed_msg = OK\<rparr>, 0)"
proof -
  have s: "is_schedule PAIRS_N [9, 8, 7, 6, 5, 4, 3, 2, 1, 0]"
    by code_simp
  from s main_pairs_result [OF s] show ?thesis by simp
qed

text \<open>
  Claim C4 as stated fails for the same reason: with \<open>n = 9\<close> and \<open>k = 3\<close> the program
  prints \<open>a = [0..8]\<close> and \<open>b = [9..17]\<close>, and \<^verbatim>\<open>dotprod_blocks\<close> returns 528, not
  204.
\<close>

theorem main_blocks_arrays_differ:
  "initArray BLOCKS_N (replicate BLOCKS_N 0, 0) = Some ([0, 1, 2, 3, 4, 5, 6, 7, 8], 9) \<and>
   initArray BLOCKS_N (replicate BLOCKS_N 0, 9) = Some ([9, 10, 11, 12, 13, 14, 15, 16, 17], 18) \<and>
   dotprod_blocks BLOCKS_N BLOCKS_K [0, 1, 2, 3, 4, 5, 6, 7, 8] [9, 10, 11, 12, 13, 14, 15, 16, 17]
     [0, 1, 2] = Some 528 \<and>
   map_option (\<lambda>(out, c). (printed_arrays out, printed_res out))
     (main_blocks dotprod_ref [0, 1, 2])
     = Some ([[0, 1, 2, 3, 4, 5, 6, 7, 8], [9, 10, 11, 12, 13, 14, 15, 16, 17]], 528)"
  by code_simp

text \<open>
  Claim C4, as amended. In the block dot-product program with \<open>n = 9\<close> and block size
  \<open>k = 3\<close> the array \<open>a\<close> is \<open>[0..8]\<close> and the array \<open>b\<close> is \<open>[9..17]\<close>, and
  \<^verbatim>\<open>dotprod_blocks\<close> returns 528, which is what the sequential reference returns, for
  every order of the workers.
\<close>

theorem main_blocks_result:
  assumes "is_schedule (BLOCKS_N div BLOCKS_K) sched"
  shows "main_blocks dotprod_ref sched
    = Some (\<lparr>printed_arrays = [[0, 1, 2, 3, 4, 5, 6, 7, 8], [9, 10, 11, 12, 13, 14, 15, 16, 17]],
             printed_ref = 528, printed_res = 528, printed_msg = OK\<rparr>, 0)"
proof -
  have "dotprod_ref BLOCKS_N [0, 1, 2, 3, 4, 5, 6, 7, 8] [9, 10, 11, 12, 13, 14, 15, 16, 17] = Some 528"
    using dotprod_ref_value [of BLOCKS_N "[0, 1, 2, 3, 4, 5, 6, 7, 8]" "[9, 10, 11, 12, 13, 14, 15, 16, 17]"]
    by (simp add: dot_blocks) (simp add: BLOCKS_N_def)
  from main_blocks_run [where f = dotprod_ref, OF assms this] show ?thesis by simp
qed

theorem main_blocks_result_witness:
  "is_schedule (BLOCKS_N div BLOCKS_K) [2, 0, 1] \<and>
   main_blocks dotprod_ref [2, 0, 1]
    = Some (\<lparr>printed_arrays = [[0, 1, 2, 3, 4, 5, 6, 7, 8], [9, 10, 11, 12, 13, 14, 15, 16, 17]],
             printed_ref = 528, printed_res = 528, printed_msg = OK\<rparr>, 0)"
proof -
  have s: "is_schedule (BLOCKS_N div BLOCKS_K) [2, 0, 1]"
    by (auto simp: is_schedule_def BLOCKS_N_def BLOCKS_K_def)
  from s main_blocks_result [OF s] show ?thesis by simp
qed







text \<open>
  Claim C8. The \<^verbatim>\<open>main\<close> of every program returns the exit code 0 on every run, for
  every order of the workers and whatever value the reference returns: on the \<open>OK\<close>
  branch and on the branch that prints the error message alike.
\<close>

theorem mains_return_0:
  assumes "is_schedule MAT_M s1" "is_schedule MAT_M s2"
    and "is_schedule PAIRS_N s3" "is_schedule (BLOCKS_N div BLOCKS_K) s4"
    and "f PAIRS_N [0, 1, 2, 3, 4, 5, 6, 7, 8, 9] [10, 11, 12, 13, 14, 15, 16, 17, 18, 19] = Some r3"
    and "g BLOCKS_N [0, 1, 2, 3, 4, 5, 6, 7, 8] [9, 10, 11, 12, 13, 14, 15, 16, 17] = Some r4"
  shows "map_option snd (main_max s1) = Some 0
       \<and> map_option snd (main_frobenius s2) = Some 0
       \<and> map_option snd (main_pairs f s3) = Some 0
       \<and> map_option snd (main_blocks g s4) = Some 0"
  using main_max_run [OF assms(1)] main_frobenius_run [OF assms(2)]
    main_pairs_run [where f = f, OF assms(3,5)] main_blocks_run [where f = g, OF assms(4,6)]
  by simp

theorem mains_return_0_witness:
  "map_option snd (main_max [3, 0, 4, 1, 2]) = Some 0
   \<and> map_option snd (main_frobenius [3, 0, 4, 1, 2]) = Some 0
   \<and> map_option snd (main_pairs (\<lambda>n a b. Some 285) [0, 1, 2, 3, 4, 5, 6, 7, 8, 9]) = Some 0
   \<and> map_option (printed_msg \<circ> fst) (main_pairs (\<lambda>n a b. Some 285) [0, 1, 2, 3, 4, 5, 6, 7, 8, 9])
       = Some ERROR
   \<and> map_option snd (main_blocks (\<lambda>n a b. Some 528) [1, 2, 0]) = Some 0
   \<and> map_option (printed_msg \<circ> fst) (main_blocks (\<lambda>n a b. Some 528) [1, 2, 0]) = Some OK"
proof -
  have "map_option (printed_msg \<circ> fst) (main_pairs (\<lambda>n a b. Some 285) [0, 1, 2, 3, 4, 5, 6, 7, 8, 9])
       = Some ERROR"
    using main_pairs_run [where f = "\<lambda>n a b. Some 285" and r = 285, OF is_schedule_10] by simp
  moreover have "map_option (printed_msg \<circ> fst) (main_blocks (\<lambda>n a b. Some 528) [1, 2, 0]) = Some OK"
    using main_blocks_run [where f = "\<lambda>n a b. Some 528" and r = 528, OF is_schedule_3] by simp
  ultimately show ?thesis
    using mains_return_0 [where f = "\<lambda>n a b. Some 285" and g = "\<lambda>n a b. Some 528"
        and ?r3.0 = 285 and ?r4.0 = 528,
        OF is_schedule_5 is_schedule_5 is_schedule_10 is_schedule_3]
    by simp
qed

text \<open>
  Where the accesses do stay in bounds. For a matrix with at least one row and exactly
  \<^verbatim>\<open>N\<close> = 8 columns and a row index below the number of rows, every access of
  \<^verbatim>\<open>compute_row_max\<close> and of \<^verbatim>\<open>compute_row_sum\<close> is in bounds, the first read of
  \<open>A[row][0]\<close> included; for a matrix with at least one row and one column every access
  of \<^verbatim>\<open>max_ref\<close> is, the first read of \<open>A[0][0]\<close> included; and for a block that ends
  within both vectors every access of \<^verbatim>\<open>compute_block\<close> is. None of these functions
  reaches the out-of-bounds value \<open>None\<close>.
\<close>

theorem array_accesses_in_bounds:
  assumes "0 < m" "r < m" "length A = m * MAT_N"
    and "0 < m'" "0 < n'" "length B = m' * n'"
    and "td_end d \<le> length (td_block_a d)" "td_end d \<le> length (td_block_b d)"
  shows "compute_row_max \<lparr>td_row = r, td_n = MAT_N, td_A = A\<rparr> shared \<noteq> None
       \<and> compute_row_sum \<lparr>td_row = r, td_n = MAT_N, td_A = A\<rparr> shared \<noteq> None
       \<and> max_ref m' n' B \<noteq> None
       \<and> compute_block d shared \<noteq> None"
proof -
  have "compute_block d shared \<noteq> None"
    using compute_block_value [OF assms(7,8), of "td_start d" shared] by (cases d) simp
  then show ?thesis
    using compute_row_max_value [OF assms(2,3), of shared]
      compute_row_sum_value [OF assms(2,3), of shared]
      max_ref_returns [OF assms(4-6)]
    by auto
qed

theorem array_accesses_in_bounds_witness:
  "compute_row_max \<lparr>td_row = 1, td_n = MAT_N, td_A = map real [0..<16]\<rparr> 0 \<noteq> None
   \<and> compute_row_sum \<lparr>td_row = 1, td_n = MAT_N, td_A = map real [0..<16]\<rparr> 0 \<noteq> None
   \<and> max_ref 2 3 [1, 2, 3, 4, 5, 6] \<noteq> None
   \<and> compute_block \<lparr>td_start = 2, td_end = 4, td_block_a = [1, 2, 3, 4], td_block_b = [5, 6, 7, 8]\<rparr> 0
       \<noteq> None"
  using array_accesses_in_bounds [of 2 1 "map real [0..<16]" 2 3 "[1, 2, 3, 4, 5, 6]"
      "\<lparr>td_start = 2, td_end = 4, td_block_a = [1, 2, 3, 4], td_block_b = [5, 6, 7, 8]\<rparr>" 0]
  by (simp add: MAT_N_def)

text \<open>
  Claim C10. For a matrix with at least one row and one column (and block ranges within
  the vectors), every array access of \<^verbatim>\<open>compute_row_max\<close>, \<^verbatim>\<open>max_ref\<close>,
  \<^verbatim>\<open>compute_row_sum\<close> and \<^verbatim>\<open>compute_block\<close> is to be in bounds, so that none reaches
  the out-of-bounds value \<open>None\<close>. The row workers do on a matrix of 2 rows and 1 column:
  with the thread data that \<^verbatim>\<open>max\<close> and \<^verbatim>\<open>frobenius\<close> build for it, the worker of
  row 1 reads \<^verbatim>\<open>data->A[1][0]\<close> at cell \<open>1 * 8 + 0\<close> of a buffer of 2 cells, where
  the sequential \<^verbatim>\<open>max_ref\<close> and \<^verbatim>\<open>frobenius_ref\<close> stay in bounds on the same
  matrix.
\<close>

theorem row_worker_out_of_bounds:
  "length [0, 5 :: real] = 2 * 1
   \<and> compute_row_max (max_thread_data 2 1 [0, 5] ! 1) 0 = None
   \<and> compute_row_sum (frobenius_thread_data 2 1 [0, 5] ! 1) 0 = None
   \<and> max_par 2 1 [0, 5] [0, 1] = None
   \<and> max_ref 2 1 [0, 5] = Some 5
   \<and> frobenius_ref 2 1 [0, 5] \<noteq> None"
proof -
  have "frobenius_ref 2 1 [0, 5] \<noteq> None"
    using frobenius_ref_value [of "[0, 5]" 2 1] by simp
  moreover have "compute_row_max (max_thread_data 2 1 [0, 5] ! 1) 0 = None
      \<and> compute_row_sum (frobenius_thread_data 2 1 [0, 5] ! 1) 0 = None
      \<and> max_par 2 1 [0, 5] [0, 1] = None
      \<and> max_ref 2 1 [0, 5] = Some 5"
    by code_simp
  ultimately show ?thesis by simp
qed

end
